theory Spec2Isabelle
  imports Complex_Main
begin

section \<open>Values and errors\<close>

text \<open>
  The two notebooks are sequences of cells that call library functions on a handful of
  values. Array entries are modelled as real numbers: the entries the notebook computes
  are finite floating-point numbers, and rounding is not modelled. An index outside an
  array raises \<open>IndexError\<close> in Python; the circuit library raises its own error when an
  instruction does not fit the circuit's registers.
\<close>

datatype error = IndexError | CircuitError

type_synonym vector = "real list"

type_synonym matrix = "real list list"

text \<open>\<open>xs[i]\<close> for an index produced by \<open>range\<close>, hence not negative.\<close>

definition getitem :: "'a list \<Rightarrow> nat \<Rightarrow> error + 'a" where
  "getitem xs i = (if i < length xs then Inr (xs ! i) else Inl IndexError)"

text \<open>\<open>w[i, j]\<close> read and \<open>w[i, j] = v\<close> on a two-dimensional array.\<close>

definition getitem2 :: "matrix \<Rightarrow> nat \<Rightarrow> nat \<Rightarrow> error + real" where
  "getitem2 w i j =
     (if i < length w \<and> j < length (w ! i) then Inr (w ! i ! j) else Inl IndexError)"

definition setitem2 :: "matrix \<Rightarrow> nat \<Rightarrow> nat \<Rightarrow> real \<Rightarrow> error + matrix" where
  "setitem2 w i j v =
     (if i < length w \<and> j < length (w ! i) then Inr (w[i := (w ! i)[j := v]])
      else Inl IndexError)"

text \<open>A \<open>for\<close> loop over a list of items: the body updates the loop state or raises,
  and the first exception ends the loop.\<close>

fun for_each :: "('s \<Rightarrow> 'a \<Rightarrow> error + 's) \<Rightarrow> 'a list \<Rightarrow> 's \<Rightarrow> error + 's" where
  "for_each body [] s = Inr s"
| "for_each body (x # xs) s =
     (case body s x of Inl e \<Rightarrow> Inl e | Inr s' \<Rightarrow> for_each body xs s')"

section \<open>The distance matrix\<close>

text \<open>
  \<^verbatim>\<open>
  w = np.zeros((n_instances, n_instances))
  for i, j in itertools.product(*[range(n_instances)]*2):
      w[i, j] = np.linalg.norm(data[i]-data[j])
  \<close>
  \<open>np.zeros\<close> gives the all-zero array of the given shape, the difference of two rows of
  \<open>data\<close> is taken coordinate by coordinate, \<open>np.linalg.norm\<close> of a vector is its
  2-norm, and \<open>itertools.product\<close> of \<open>range(n)\<close> with itself lists the index pairs in
  lexicographic order (the notebook prints that list for \<open>n = 4\<close>).
\<close>

definition np_zeros :: "nat \<Rightarrow> nat \<Rightarrow> matrix" where
  "np_zeros r c = replicate r (replicate c 0)"

definition vsub :: "vector \<Rightarrow> vector \<Rightarrow> vector" where
  "vsub x y = map2 (-) x y"

definition linalg_norm :: "vector \<Rightarrow> real" where
  "linalg_norm v = sqrt (\<Sum>x\<leftarrow>v. x\<^sup>2)"

definition itertools_product :: "nat \<Rightarrow> (nat \<times> nat) list" where
  "itertools_product n = List.product [0..<n] [0..<n]"

definition w_body :: "matrix \<Rightarrow> matrix \<Rightarrow> nat \<times> nat \<Rightarrow> error + matrix" where
  "w_body data w ij =
     (case getitem data (fst ij) of
        Inl e \<Rightarrow> Inl e
      | Inr x \<Rightarrow>
          (case getitem data (snd ij) of
             Inl e \<Rightarrow> Inl e
           | Inr y \<Rightarrow> setitem2 w (fst ij) (snd ij) (linalg_norm (vsub x y))))"

definition distance_matrix :: "nat \<Rightarrow> matrix \<Rightarrow> error + matrix" where
  "distance_matrix n data = for_each (w_body data) (itertools_product n) (np_zeros n n)"

text \<open>An array of shape \<open>(n, n)\<close>.\<close>

definition square :: "nat \<Rightarrow> matrix \<Rightarrow> bool" where
  "square n w \<longleftrightarrow> length w = n \<and> list_all (\<lambda>row. length row = n) w"

section \<open>The Ising model for the annealer\<close>

text \<open>
  \<^verbatim>\<open>
  J, h = {}, {}
  for i in range(n_instances):
      h[i] = 0
      for j in range(i+1, n_instances):
          J[(i, j)] = w[i, j]
  \<close>
\<close>

type_synonym couplings = "nat \<times> nat \<rightharpoonup> real"

type_synonym fields = "nat \<rightharpoonup> int"

definition J_body :: "matrix \<Rightarrow> nat \<Rightarrow> couplings \<Rightarrow> nat \<Rightarrow> error + couplings" where
  "J_body w i J j =
     (case getitem2 w i j of Inl e \<Rightarrow> Inl e | Inr v \<Rightarrow> Inr (J((i, j) \<mapsto> v)))"

definition ising_body :: "nat \<Rightarrow> matrix \<Rightarrow> couplings \<times> fields \<Rightarrow> nat \<Rightarrow> error + couplings \<times> fields" where
  "ising_body n w Jh i =
     (case Jh of (J, h) \<Rightarrow>
        (case for_each (J_body w i) [i + 1..<n] J of
           Inl e \<Rightarrow> Inl e
         | Inr J' \<Rightarrow> Inr (J', h(i \<mapsto> 0))))"

definition ising_model :: "nat \<Rightarrow> matrix \<Rightarrow> error + couplings \<times> fields" where
  "ising_model n w = for_each (ising_body n w) [0..<n] (Map.empty, Map.empty)"

section \<open>The circuit of the gate-model notebook\<close>

text \<open>
  \<^verbatim>\<open>
  q = QuantumRegister(2)
  c = ClassicalRegister(2)
  circuit = QuantumCircuit(q, c)
  circuit.h(q[0])
  circuit.cx(q[0], q[1])
  circuit_drawer(circuit)
  \<close>
  and, in the next cell,
  \<^verbatim>\<open>
  circuit.measure(q, c)
  circuit_drawer(circuit)
  \<close>
  The circuit object belongs to the circuit library. The definitions below model the part
  of its interface these two cells use: a register has a size and is indexed from 0, a
  circuit holds its registers and an ordered list of instructions, a gate method appends
  one instruction on bits of the circuit, and \<open>measure\<close> on two registers of equal size
  appends one measurement per index. The list agrees with the instructions the notebook
  records after \<open>assemble\<close>: \<open>h [0]\<close>, \<open>cx [0, 1]\<close>, \<open>measure 0 \<rightarrow> 0\<close>, \<open>measure 1 \<rightarrow> 1\<close>.
  Drawing a circuit leaves it unchanged. Registers are identified by their size, which
  is enough for a circuit with one register of each kind.
\<close>

datatype qreg = QuantumRegister nat

datatype creg = ClassicalRegister nat

datatype qubit = Qubit qreg nat

datatype clbit = Clbit creg nat

datatype instruction = H qubit | CX qubit qubit | Measure qubit clbit

record QuantumCircuit =
  qregs :: "qreg list"
  cregs :: "creg list"
  instructions :: "instruction list"

fun qreg_size :: "qreg \<Rightarrow> nat" where
  "qreg_size (QuantumRegister n) = n"

fun creg_size :: "creg \<Rightarrow> nat" where
  "creg_size (ClassicalRegister n) = n"

definition qreg_getitem :: "qreg \<Rightarrow> nat \<Rightarrow> error + qubit" where
  "qreg_getitem q k = (if k < qreg_size q then Inr (Qubit q k) else Inl CircuitError)"

definition new_circuit :: "qreg \<Rightarrow> creg \<Rightarrow> QuantumCircuit" where
  "new_circuit q c = \<lparr>qregs = [q], cregs = [c], instructions = []\<rparr>"

fun has_qubit :: "QuantumCircuit \<Rightarrow> qubit \<Rightarrow> bool" where
  "has_qubit circ (Qubit q k) \<longleftrightarrow> q \<in> set (qregs circ) \<and> k < qreg_size q"

definition append_instruction :: "QuantumCircuit \<Rightarrow> instruction \<Rightarrow> QuantumCircuit" where
  "append_instruction circ ins = circ\<lparr>instructions := instructions circ @ [ins]\<rparr>"

definition circuit_h :: "QuantumCircuit \<Rightarrow> qubit \<Rightarrow> error + QuantumCircuit" where
  "circuit_h circ a =
     (if has_qubit circ a then Inr (append_instruction circ (H a)) else Inl CircuitError)"

definition circuit_cx :: "QuantumCircuit \<Rightarrow> qubit \<Rightarrow> qubit \<Rightarrow> error + QuantumCircuit" where
  "circuit_cx circ a b =
     (if has_qubit circ a \<and> has_qubit circ b \<and> a \<noteq> b
      then Inr (append_instruction circ (CX a b)) else Inl CircuitError)"

definition circuit_measure :: "QuantumCircuit \<Rightarrow> qreg \<Rightarrow> creg \<Rightarrow> error + QuantumCircuit" where
  "circuit_measure circ q c =
     (if q \<in> set (qregs circ) \<and> c \<in> set (cregs circ) \<and> qreg_size q = creg_size c
      then Inr (circ\<lparr>instructions := instructions circ
                  @ map (\<lambda>k. Measure (Qubit q k) (Clbit c k)) [0..<qreg_size q]\<rparr>)
      else Inl CircuitError)"

text \<open>Sequencing of statements that may raise: the first exception is the result.\<close>

definition then_do :: "error + 'a \<Rightarrow> ('a \<Rightarrow> error + 'b) \<Rightarrow> error + 'b" where
  "then_do r f = (case r of Inl e \<Rightarrow> Inl e | Inr x \<Rightarrow> f x)"

text \<open>The first cell leaves \<open>q\<close>, \<open>c\<close> and \<open>circuit\<close> in the notebook's namespace; the
  measurement cell reads them.\<close>

definition define_circuit :: "error + qreg \<times> creg \<times> QuantumCircuit" where
  "define_circuit =
     (let q = QuantumRegister 2; c = ClassicalRegister 2; circuit = new_circuit q c in
      then_do (qreg_getitem q 0) (\<lambda>q0.
      then_do (circuit_h circuit q0) (\<lambda>circuit.
      then_do (qreg_getitem q 0) (\<lambda>q0.
      then_do (qreg_getitem q 1) (\<lambda>q1.
      then_do (circuit_cx circuit q0 q1) (\<lambda>circuit.
      Inr (q, c, circuit)))))))"

definition add_measurement :: "qreg \<times> creg \<times> QuantumCircuit \<Rightarrow> error + QuantumCircuit" where
  "add_measurement qcc = (case qcc of (q, c, circuit) \<Rightarrow> circuit_measure circuit q c)"

definition measured_circuit :: "error + QuantumCircuit" where
  "measured_circuit = then_do define_circuit add_measurement"

section \<open>Cells as sequences of calls\<close>

text \<open>
  No cell of the two notebooks contains a branch, a \<open>try\<close> statement or a function
  definition: a cell is a straight line of statements, and its only loops run over
  \<open>range\<close>, over \<open>itertools.product\<close> of ranges, and over the records of the sampler's
  response. The order in which a cell calls into libraries is therefore fixed by
  \<open>n_instances\<close> and by the number of records the response yields. A cell is modelled
  as the list of its calls in Python's evaluation order (arguments before the call, the
  right-hand side of an assignment before the store).

  A call names the top-level package that owns the called code, the function, method or
  operator, and its integer arguments where it has any. Recorded are imports, calls of
  library functions and methods, operators and subscripts applied to arrays and to
  objects returned by a library, and the built-ins \<open>range\<close>, \<open>list\<close> and \<open>print\<close>.
  Literals, arithmetic on Python integers and stores into the notebook's own lists and
  dictionaries are not calls.
\<close>

datatype call = Call (package: string) (func: string) (args: "nat list")

text \<open>
  What a library does is not part of the notebooks. A world says, for the calls made so
  far and the next call, whether that call returns or which exception it raises. An
  event is a call together with the exception it raised, if any.
\<close>

type_synonym 'e event = "call \<times> 'e option"

type_synonym 'e trace = "'e event list"

type_synonym 'e world = "'e trace \<Rightarrow> call \<Rightarrow> 'e option"

text \<open>Running a cell after the events \<open>tr\<close>: the calls are made in order, and the first
  exception ends the cell and is its outcome.\<close>

fun run_cell :: "'e world \<Rightarrow> call list \<Rightarrow> 'e trace \<Rightarrow> 'e option \<times> 'e trace" where
  "run_cell lib [] tr = (None, tr)"
| "run_cell lib (c # cs) tr =
     (case lib tr c of
        Some e \<Rightarrow> (Some e, tr @ [(c, Some e)])
      | None \<Rightarrow> run_cell lib cs (tr @ [(c, None)]))"

text \<open>Running a notebook from its first cell on: the cells run in order, and a cell
  that ends with an exception ends the run.\<close>

fun run_all :: "'e world \<Rightarrow> call list list \<Rightarrow> 'e trace \<Rightarrow> 'e option \<times> 'e trace" where
  "run_all lib [] tr = (None, tr)"
| "run_all lib (cell # cells) tr =
     (case run_cell lib cell tr of
        (Some e, tr') \<Rightarrow> (Some e, tr')
      | (None, tr') \<Rightarrow> run_all lib cells tr')"

subsection \<open>The calls\<close>

definition import_from :: "string \<Rightarrow> string \<Rightarrow> call" where
  "import_from pkg m = Call pkg (''import '' @ m) []"

definition builtin_getitem :: call where
  "builtin_getitem = Call ''builtins'' ''__getitem__'' []"

definition print_call :: call where
  "print_call = Call ''builtins'' ''print'' []"

definition range_call :: "nat \<Rightarrow> nat \<Rightarrow> call" where
  "range_call a b = Call ''builtins'' ''range'' [a, b]"

definition product_call :: call where
  "product_call = Call ''itertools'' ''product'' []"

definition new_qreg_call :: call where
  "new_qreg_call = Call ''qiskit'' ''QuantumRegister'' [2]"

definition new_creg_call :: call where
  "new_creg_call = Call ''qiskit'' ''ClassicalRegister'' [2]"

definition new_circuit_call :: call where
  "new_circuit_call = Call ''qiskit'' ''QuantumCircuit'' []"

definition qreg_getitem_call :: "nat \<Rightarrow> call" where
  "qreg_getitem_call k = Call ''qiskit'' ''QuantumRegister.__getitem__'' [k]"

definition h_call :: call where
  "h_call = Call ''qiskit'' ''QuantumCircuit.h'' []"

definition cx_call :: call where
  "cx_call = Call ''qiskit'' ''QuantumCircuit.cx'' []"

definition measure_call :: call where
  "measure_call = Call ''qiskit'' ''QuantumCircuit.measure'' []"

definition circuit_drawer_call :: call where
  "circuit_drawer_call = Call ''qiskit'' ''circuit_drawer'' []"

definition execute_call :: call where
  "execute_call = Call ''qiskit'' ''execute'' [100]"

definition plot_histogram_call :: call where
  "plot_histogram_call = Call ''qiskit'' ''plot_histogram'' []"

definition data_getitem_call :: "nat \<Rightarrow> call" where
  "data_getitem_call i = Call ''numpy'' ''ndarray.__getitem__'' [i]"

definition data_column_call :: "nat \<Rightarrow> call" where
  "data_column_call k = Call ''numpy'' ''ndarray.__getitem__ column'' [k]"

definition norm_call :: call where
  "norm_call = Call ''numpy'' ''linalg.norm'' []"

definition np_zeros_call :: "nat \<Rightarrow> call" where
  "np_zeros_call n = Call ''numpy'' ''zeros'' [n, n]"

definition w_setitem_call :: "nat \<Rightarrow> nat \<Rightarrow> call" where
  "w_setitem_call i j = Call ''numpy'' ''ndarray.__setitem__'' [i, j]"

definition w_getitem_call :: "nat \<Rightarrow> nat \<Rightarrow> call" where
  "w_getitem_call i j = Call ''numpy'' ''ndarray.__getitem__'' [i, j]"

definition get_max_cut_qubitops_call :: call where
  "get_max_cut_qubitops_call =
     Call ''qiskit'' ''aqua.translators.ising.max_cut.get_max_cut_qubitops'' []"

definition qaoa_run_call :: call where
  "qaoa_run_call = Call ''qiskit'' ''aqua.algorithms.QAOA.run'' []"

definition sampler_sample_call :: call where
  "sampler_sample_call = Call ''dimod'' ''SimulatedAnnealingSampler.sample'' [10]"

subsection \<open>The gate-model notebook\<close>

text \<open>
  Its four code cells: the circuit is defined and drawn; the measurement is added and
  the circuit drawn again; the circuit is executed on the simulator,
  \<^verbatim>\<open>
  backend = Aer.get_backend('qasm_simulator')
  job = execute(circuit, backend, shots = 100)
  plot_histogram(job.result().get_counts(circuit))
  \<close>
  and it is assembled,
  \<^verbatim>\<open>
  from qiskit.compiler import assemble
  compiled_circuit = assemble(circuit, backend)
  compiled_circuit.as_dict()['experiments'][0]['instructions']
  \<close>
\<close>

definition cell_define_circuit :: "call list" where
  "cell_define_circuit =
     [import_from ''qiskit'' ''qiskit'', import_from ''qiskit'' ''qiskit'',
      import_from ''qiskit'' ''qiskit'', import_from ''qiskit'' ''qiskit.tools.visualization'',
      new_qreg_call, new_creg_call, new_circuit_call,
      qreg_getitem_call 0, h_call,
      qreg_getitem_call 0, qreg_getitem_call 1, cx_call,
      circuit_drawer_call]"

definition cell_measure :: "call list" where
  "cell_measure = [measure_call, circuit_drawer_call]"

definition cell_execute :: "call list" where
  "cell_execute =
     [Call ''qiskit'' ''BasicAer.get_backend'' [], execute_call,
      Call ''qiskit'' ''Job.result'' [], Call ''qiskit'' ''Result.get_counts'' [],
      plot_histogram_call]"

definition cell_assemble :: "call list" where
  "cell_assemble =
     [import_from ''qiskit'' ''qiskit.compiler'', Call ''qiskit'' ''assemble'' [],
      Call ''qiskit'' ''Qobj.as_dict'' [], builtin_getitem, builtin_getitem, builtin_getitem]"

definition gate_model_notebook :: "call list list" where
  "gate_model_notebook = [cell_define_circuit, cell_measure, cell_execute, cell_assemble]"

text \<open>The calls that construct the circuit: the registers, the circuit, the two gates
  and the measurement.\<close>

definition circuit_construction :: "call list" where
  "circuit_construction =
     [new_qreg_call, new_creg_call, new_circuit_call, h_call, cx_call, measure_call]"

subsection \<open>The clustering notebook\<close>

text \<open>
  The notebook sets \<open>n_instances = 4\<close>; the cells are given for any \<open>n\<close>. The data
  cell:
  \<^verbatim>\<open>
  import numpy as np
  import matplotlib.pyplot as plt
  from mpl_toolkits.mplot3d import Axes3D
  %matplotlib inline
  n_instances = 4
  class_1 = np.random.rand(n_instances//2, 3)/5
  class_2 = (0.6, 0.1, 0.05) + np.random.rand(n_instances//2, 3)/5
  data = np.concatenate((class_1, class_2))
  colors = ["red"] * (n_instances//2) + ["green"] * (n_instances//2)
  fig = plt.figure()
  ax = fig.add_subplot(111, projection = '3d', xticks = [], yticks = [], zticks = [])
  ax.scatter(data[:, 0], data[:, 1], data[:, 2], c = colors)
  \<close>
\<close>

definition cell_data :: "nat \<Rightarrow> call list" where
  "cell_data n =
     [import_from ''numpy'' ''numpy'', import_from ''matplotlib'' ''matplotlib.pyplot'',
      import_from ''mpl_toolkits'' ''mpl_toolkits.mplot3d'',
      Call ''IPython'' ''%matplotlib'' [],
      Call ''numpy'' ''random.rand'' [n div 2, 3], Call ''numpy'' ''ndarray.__truediv__'' [5],
      Call ''numpy'' ''random.rand'' [n div 2, 3], Call ''numpy'' ''ndarray.__truediv__'' [5],
      Call ''numpy'' ''ndarray.__radd__'' [],
      Call ''numpy'' ''concatenate'' [],
      Call ''matplotlib'' ''pyplot.figure'' [], Call ''matplotlib'' ''Figure.add_subplot'' [111],
      data_column_call 0, data_column_call 1, data_column_call 2,
      Call ''mpl_toolkits'' ''Axes3D.scatter'' []]"

text \<open>
  The distance cell, one round of the loop being
  \<open>w[i, j] = np.linalg.norm(data[i]-data[j])\<close>:
  \<^verbatim>\<open>
  import itertools
  w = np.zeros((n_instances, n_instances))
  for i, j in itertools.product(*[range(n_instances)]*2):
      w[i, j] = np.linalg.norm(data[i]-data[j])
  print(w)
  \<close>
  and the cell after it, \<open>print(list(itertools.product(*[range(n_instances)]*2)))\<close>.
\<close>

definition w_calls :: "nat \<times> nat \<Rightarrow> call list" where
  "w_calls ij =
     [data_getitem_call (fst ij), data_getitem_call (snd ij),
      Call ''numpy'' ''ndarray.__sub__'' [], norm_call, w_setitem_call (fst ij) (snd ij)]"

definition cell_distances :: "nat \<Rightarrow> call list" where
  "cell_distances n =
     [import_from ''itertools'' ''itertools'', np_zeros_call n, range_call 0 n, product_call]
     @ concat (map w_calls (itertools_product n))
     @ [print_call]"

definition cell_print_product :: "nat \<Rightarrow> call list" where
  "cell_print_product n =
     [range_call 0 n, product_call, Call ''builtins'' ''list'' [], print_call]"

text \<open>
  The QAOA cells:
  \<^verbatim>\<open>
  from qiskit.aqua import get_aer_backend, QuantumInstance
  from qiskit.aqua.algorithms import QAOA
  from qiskit.aqua.components.optimizers import COBYLA
  from qiskit.aqua.translators.ising import max_cut
  \<close>
  \<^verbatim>\<open>
  qubit_operators, offset = max_cut.get_max_cut_qubitops(w)
  p = 1
  optimizer = COBYLA()
  qaoa = QAOA(qubit_operators, optimizer, p, operator_mode = 'matrix')
  \<close>
  \<^verbatim>\<open>
  backend = get_aer_backend('statevector_simulator')
  quantum_instance = QuantumInstance(backend, shots = 1)
  result = qaoa.run(quantum_instance)
  x = max_cut.sample_most_likely(result['eigvecs'][0])
  graph_solution = max_cut.get_graph_solution(x)
  print('energy:', result['energy'])
  print('maxcut objective:', result['energy'] + offset)
  print('solution:', max_cut.get_graph_solution(x))
  print('solution objective:', max_cut.max_cut_value(x, w))
  \<close>
\<close>

definition cell_import_aqua :: "call list" where
  "cell_import_aqua =
     [import_from ''qiskit'' ''qiskit.aqua'', import_from ''qiskit'' ''qiskit.aqua.algorithms'',
      import_from ''qiskit'' ''qiskit.aqua.components.optimizers'',
      import_from ''qiskit'' ''qiskit.aqua.translators.ising'']"

definition cell_qaoa_init :: "call list" where
  "cell_qaoa_init =
     [get_max_cut_qubitops_call,
      Call ''qiskit'' ''aqua.components.optimizers.COBYLA'' [],
      Call ''qiskit'' ''aqua.algorithms.QAOA'' [1]]"

definition cell_qaoa_run :: "call list" where
  "cell_qaoa_run =
     [Call ''qiskit'' ''aqua.get_aer_backend'' [],
      Call ''qiskit'' ''aqua.QuantumInstance'' [1],
      qaoa_run_call,
      builtin_getitem, builtin_getitem,
      Call ''qiskit'' ''aqua.translators.ising.max_cut.sample_most_likely'' [],
      Call ''qiskit'' ''aqua.translators.ising.max_cut.get_graph_solution'' [],
      builtin_getitem, print_call,
      builtin_getitem, print_call,
      Call ''qiskit'' ''aqua.translators.ising.max_cut.get_graph_solution'' [], print_call,
      Call ''qiskit'' ''aqua.translators.ising.max_cut.max_cut_value'' [], print_call]"

text \<open>
  The annealing cell; \<open>m\<close> is the number of records \<open>response.data()\<close> yields:
  \<^verbatim>\<open>
  import dimod
  J, h = {}, {}
  for i in range(n_instances):
      h[i] = 0
      for j in range(i+1, n_instances):
          J[(i, j)] = w[i, j]
  model = dimod.BinaryQuadraticModel(h, J, 0.0, dimod.SPIN)
  sampler = dimod.SimulatedAnnealingSampler()
  response = sampler.sample(model, num_reads = 10)
  print("Energy of samples:")
  for solution in response.data():
      print("Energy:", solution.energy, "Sample:", solution.sample)
  \<close>
\<close>

definition J_calls :: "nat \<Rightarrow> nat \<Rightarrow> call list" where
  "J_calls n i = range_call (i + 1) n # map (w_getitem_call i) [i + 1..<n]"

definition cell_annealing :: "nat \<Rightarrow> nat \<Rightarrow> call list" where
  "cell_annealing n m =
     [import_from ''dimod'' ''dimod'', range_call 0 n]
     @ concat (map (J_calls n) [0..<n])
     @ [Call ''dimod'' ''BinaryQuadraticModel'' [],
        Call ''dimod'' ''SimulatedAnnealingSampler'' [],
        sampler_sample_call,
        print_call,
        Call ''dimod'' ''SampleSet.data'' []]
     @ replicate m print_call"

definition clustering_notebook :: "nat \<Rightarrow> nat \<Rightarrow> call list list" where
  "clustering_notebook n m =
     [cell_data n, cell_distances n, cell_print_product n, cell_import_aqua,
      cell_qaoa_init, cell_qaoa_run, cell_annealing n m]"

subsection \<open>Runs and their events\<close>

definition gate_model_trace :: "'e world \<Rightarrow> 'e trace" where
  "gate_model_trace lib = snd (run_all lib gate_model_notebook [])"

definition clustering_trace :: "'e world \<Rightarrow> nat \<Rightarrow> nat \<Rightarrow> 'e trace" where
  "clustering_trace lib n m = snd (run_all lib (clustering_notebook n m) [])"

text \<open>The \<open>k\<close>-th event of a trace is an invocation of \<open>c\<close>; \<open>c\<close> was called and has
  returned before the \<open>k\<close>-th event.\<close>

definition invoked_at :: "'e trace \<Rightarrow> call \<Rightarrow> nat \<Rightarrow> bool" where
  "invoked_at tr c k \<longleftrightarrow> k < length tr \<and> fst (tr ! k) = c"

definition returned_before :: "'e trace \<Rightarrow> call \<Rightarrow> nat \<Rightarrow> bool" where
  "returned_before tr c k \<longleftrightarrow> (c, None) \<in> set (take k tr)"

text \<open>Two worlds: in one no call raises, in the other every invocation of one call
  raises a given exception.\<close>

definition nothing_raises :: "'e world" where
  "nothing_raises tr c = None"


text \<open>The packages the notebooks call into.\<close>

definition used_packages :: "string list" where
  "used_packages =
     [''qiskit'', ''dimod'', ''numpy'', ''matplotlib'', ''mpl_toolkits'', ''IPython'',
      ''itertools'', ''builtins'']"

section \<open>Properties of the distance matrix\<close>

lemma square_np_zeros: "square n (np_zeros n n)"
  by (simp add: square_def np_zeros_def list_all_iff)

lemma square_row: "square n w \<Longrightarrow> i < n \<Longrightarrow> length (w ! i) = n"
  by (simp add: square_def list_all_length)

lemma setitem2_square:
  assumes "square n w" "i < n" "j < n"
  shows "\<exists>w'. setitem2 w i j v = Inr w' \<and> square n w' \<and>
           (\<forall>a b. a < n \<longrightarrow> b < n \<longrightarrow> w' ! a ! b = (if a = i \<and> b = j then v else w ! a ! b))"
proof -
  let ?w' = "w[i := (w ! i)[j := v]]"
  have len: "length w = n" and row: "length (w ! i) = n"
    using assms by (simp_all add: square_def list_all_length)
  have "setitem2 w i j v = Inr ?w'"
    using assms len row by (simp add: setitem2_def)
  moreover have "square n ?w'"
    using assms len unfolding square_def list_all_length
    by (auto simp: nth_list_update)
  moreover have "\<forall>a b. a < n \<longrightarrow> b < n \<longrightarrow> ?w' ! a ! b = (if a = i \<and> b = j then v else w ! a ! b)"
  proof (intro allI impI)
    fix a b
    assume "a < n" "b < n"
    then show "?w' ! a ! b = (if a = i \<and> b = j then v else w ! a ! b)"
      using len row by (cases "a = i") (simp_all add: nth_list_update)
  qed
  ultimately show ?thesis by blast
qed

text \<open>The loop over any list of in-range index pairs: it does not raise, the shape is
  kept, and a cell holds the value of its last assignment, which depends on the cell
  only.\<close>

lemma w_body_square:
  assumes "square n w" "i < n" "j < n" "n \<le> length data"
  shows "\<exists>w'. w_body data w (i, j) = Inr w' \<and> square n w' \<and>
           (\<forall>a b. a < n \<longrightarrow> b < n \<longrightarrow> w' ! a ! b =
              (if a = i \<and> b = j then linalg_norm (vsub (data ! i) (data ! j)) else w ! a ! b))"
  using setitem2_square [OF assms(1-3)] assms(2-4)
  by (simp add: w_body_def getitem_def)

lemma for_each_w_body:
  assumes "square n w" "\<forall>p \<in> set ps. fst p < n \<and> snd p < n" "n \<le> length data"
  shows "\<exists>w'. for_each (w_body data) ps w = Inr w' \<and> square n w' \<and>
           (\<forall>a b. a < n \<longrightarrow> b < n \<longrightarrow> w' ! a ! b =
              (if (a, b) \<in> set ps then linalg_norm (vsub (data ! a) (data ! b)) else w ! a ! b))"
  using assms
proof (induction ps arbitrary: w)
  case Nil
  then show ?case by simp
next
  case (Cons p ps)
  obtain i j where p: "p = (i, j)" by (cases p)
  have ij: "i < n" "j < n" using Cons.prems(2) p by auto
  from w_body_square [OF Cons.prems(1) ij Cons.prems(3)]
  obtain w1 where w1: "w_body data w (i, j) = Inr w1" "square n w1"
    and e1: "\<forall>a b. a < n \<longrightarrow> b < n \<longrightarrow> w1 ! a ! b =
              (if a = i \<and> b = j then linalg_norm (vsub (data ! i) (data ! j)) else w ! a ! b)"
    by blast
  have rest: "\<forall>p \<in> set ps. fst p < n \<and> snd p < n" using Cons.prems(2) by simp
  from Cons.IH [OF w1(2) rest Cons.prems(3)]
  obtain w2 where w2: "for_each (w_body data) ps w1 = Inr w2" "square n w2"
    and e2: "\<forall>a b. a < n \<longrightarrow> b < n \<longrightarrow> w2 ! a ! b =
              (if (a, b) \<in> set ps then linalg_norm (vsub (data ! a) (data ! b)) else w1 ! a ! b)"
    by blast
  have "for_each (w_body data) (p # ps) w = Inr w2"
    using w1(1) w2(1) p by simp
  moreover have "\<forall>a b. a < n \<longrightarrow> b < n \<longrightarrow> w2 ! a ! b =
        (if (a, b) \<in> set (p # ps) then linalg_norm (vsub (data ! a) (data ! b)) else w ! a ! b)"
    using e1 e2 p by auto
  ultimately show ?case using w2(2) by blast
qed

lemma distance_matrix_entries:
  assumes "n \<le> length data"
  shows "\<exists>w. distance_matrix n data = Inr w \<and> square n w \<and>
           (\<forall>i j. i < n \<longrightarrow> j < n \<longrightarrow> w ! i ! j = linalg_norm (vsub (data ! i) (data ! j)))"
proof -
  have "\<forall>p \<in> set (itertools_product n). fst p < n \<and> snd p < n"
    by (auto simp: itertools_product_def)
  from for_each_w_body [OF square_np_zeros this assms]
  obtain w where w: "for_each (w_body data) (itertools_product n) (np_zeros n n) = Inr w"
      "square n w"
    and e: "\<forall>a b. a < n \<longrightarrow> b < n \<longrightarrow> w ! a ! b =
              (if (a, b) \<in> set (itertools_product n)
               then linalg_norm (vsub (data ! a) (data ! b)) else np_zeros n n ! a ! b)"
    by blast
  have "\<forall>i j. i < n \<longrightarrow> j < n \<longrightarrow> w ! i ! j = linalg_norm (vsub (data ! i) (data ! j))"
    using e by (simp add: itertools_product_def)
  then show ?thesis using w by (auto simp: distance_matrix_def)
qed

lemma vsub_self: "linalg_norm (vsub x x) = 0"
proof -
  have "(\<Sum>a\<leftarrow>vsub x x. a\<^sup>2) = 0"
    unfolding vsub_def by (induction x) simp_all
  then show ?thesis by (simp add: linalg_norm_def)
qed

lemma vsub_commute: "linalg_norm (vsub x y) = linalg_norm (vsub y x)"
proof -
  have "(\<Sum>a\<leftarrow>vsub x y. a\<^sup>2) = (\<Sum>a\<leftarrow>vsub y x. a\<^sup>2)"
    unfolding vsub_def
  proof (induction x arbitrary: y)
    case Nil
    then show ?case by simp
  next
    case (Cons a x)
    then show ?case by (cases y) (simp_all add: power2_commute)
  qed
  then show ?thesis by (simp add: linalg_norm_def)
qed

lemma linalg_norm_nonneg: "0 \<le> linalg_norm v"
proof -
  have "0 \<le> (\<Sum>x\<leftarrow>v. x\<^sup>2)"
    by (rule sum_list_nonneg) auto
  then show ?thesis by (simp add: linalg_norm_def)
qed

section \<open>Properties of the Ising model\<close>

lemma getitem2_square: "square n w \<Longrightarrow> i < n \<Longrightarrow> j < n \<Longrightarrow> getitem2 w i j = Inr (w ! i ! j)"
  by (simp add: getitem2_def square_def list_all_length)

lemma for_each_J_body:
  assumes "square n w" "i < n" "\<forall>j \<in> set js. j < n"
  shows "\<exists>J'. for_each (J_body w i) js J = Inr J' \<and>
           (\<forall>a b. J' (a, b) = (if a = i \<and> b \<in> set js then Some (w ! i ! b) else J (a, b)))"
  using assms(3)
proof (induction js arbitrary: J)
  case Nil
  then show ?case by simp
next
  case (Cons j js)
  have j: "j < n" and rest: "\<forall>j \<in> set js. j < n" using Cons.prems by simp_all
  have step: "J_body w i J j = Inr (J((i, j) \<mapsto> w ! i ! j))"
    using getitem2_square [OF assms(1,2) j] by (simp add: J_body_def)
  from Cons.IH [OF rest, of "J((i, j) \<mapsto> w ! i ! j)"]
  obtain J' where J': "for_each (J_body w i) js (J((i, j) \<mapsto> w ! i ! j)) = Inr J'"
    and e: "\<forall>a b. J' (a, b) =
              (if a = i \<and> b \<in> set js then Some (w ! i ! b) else (J((i, j) \<mapsto> w ! i ! j)) (a, b))"
    by blast
  have "for_each (J_body w i) (j # js) J = Inr J'"
    using step J' by simp
  moreover have "\<forall>a b. J' (a, b) = (if a = i \<and> b \<in> set (j # js) then Some (w ! i ! b) else J (a, b))"
    using e by auto
  ultimately show ?case by blast
qed

lemma ising_body_square:
  assumes "square n w" "i < n"
  shows "\<exists>J'. ising_body n w (J, h) i = Inr (J', h(i \<mapsto> 0)) \<and>
           (\<forall>a b. J' (a, b) = (if a = i \<and> i < b \<and> b < n then Some (w ! i ! b) else J (a, b)))"
proof -
  have "\<forall>j \<in> set [i + 1..<n]. j < n" by simp
  from for_each_J_body [OF assms this, of J]
  obtain J' where J': "for_each (J_body w i) [i + 1..<n] J = Inr J'"
    and e: "\<forall>a b. J' (a, b) = (if a = i \<and> b \<in> set [i + 1..<n] then Some (w ! i ! b) else J (a, b))"
    by blast
  have "ising_body n w (J, h) i = Inr (J', h(i \<mapsto> 0))"
    using J' by (simp add: ising_body_def)
  moreover have "\<forall>a b. J' (a, b) = (if a = i \<and> i < b \<and> b < n then Some (w ! i ! b) else J (a, b))"
    using e by auto
  ultimately show ?thesis by blast
qed

lemma for_each_ising_body:
  assumes "square n w" "\<forall>i \<in> set ix. i < n"
  shows "\<exists>J' h'. for_each (ising_body n w) ix (J, h) = Inr (J', h') \<and>
           (\<forall>a b. J' (a, b) = (if a \<in> set ix \<and> a < b \<and> b < n then Some (w ! a ! b) else J (a, b))) \<and>
           (\<forall>a. h' a = (if a \<in> set ix then Some 0 else h a))"
  using assms(2)
proof (induction ix arbitrary: J h)
  case Nil
  then show ?case by simp
next
  case (Cons i ix)
  have i: "i < n" and rest: "\<forall>i \<in> set ix. i < n" using Cons.prems by simp_all
  from ising_body_square [OF assms(1) i, of J h]
  obtain J1 where s1: "ising_body n w (J, h) i = Inr (J1, h(i \<mapsto> 0))"
    and e1: "\<forall>a b. J1 (a, b) = (if a = i \<and> i < b \<and> b < n then Some (w ! i ! b) else J (a, b))"
    by blast
  from Cons.IH [OF rest, of J1 "h(i \<mapsto> 0)"]
  obtain J2 h2 where s2: "for_each (ising_body n w) ix (J1, h(i \<mapsto> 0)) = Inr (J2, h2)"
    and e2: "\<forall>a b. J2 (a, b) = (if a \<in> set ix \<and> a < b \<and> b < n then Some (w ! a ! b) else J1 (a, b))"
    and f2: "\<forall>a. h2 a = (if a \<in> set ix then Some 0 else (h(i \<mapsto> 0)) a)"
    by blast
  have "for_each (ising_body n w) (i # ix) (J, h) = Inr (J2, h2)"
    using s1 s2 by simp
  moreover have "\<forall>a b. J2 (a, b) =
      (if a \<in> set (i # ix) \<and> a < b \<and> b < n then Some (w ! a ! b) else J (a, b))"
    using e1 e2 by auto
  moreover have "\<forall>a. h2 a = (if a \<in> set (i # ix) then Some 0 else h a)"
    using f2 by auto
  ultimately show ?case by blast
qed

lemma ising_model_entries:
  assumes "square n w"
  shows "\<exists>J h. ising_model n w = Inr (J, h) \<and>
           (\<forall>a b. J (a, b) = (if a < b \<and> b < n then Some (w ! a ! b) else None)) \<and>
           (\<forall>a. h a = (if a < n then Some 0 else None))"
proof -
  have "\<forall>i \<in> set [0..<n]. i < n" by simp
  from for_each_ising_body [OF assms this, of Map.empty Map.empty]
  obtain J h where r: "for_each (ising_body n w) [0..<n] (Map.empty, Map.empty) = Inr (J, h)"
    and e: "\<forall>a b. J (a, b) = (if a \<in> set [0..<n] \<and> a < b \<and> b < n then Some (w ! a ! b) else None)"
    and f: "\<forall>a. h a = (if a \<in> set [0..<n] then Some 0 else None)"
    by blast
  have "\<forall>a b. J (a, b) = (if a < b \<and> b < n then Some (w ! a ! b) else None)"
    using e by auto
  moreover have "\<forall>a. h a = (if a < n then Some 0 else None)"
    using f by simp
  ultimately show ?thesis using r by (auto simp: ising_model_def)
qed

section \<open>Evaluation on a small dataset\<close>


section \<open>Properties of runs\<close>

lemmas call_defs = import_from_def builtin_getitem_def print_call_def range_call_def
  product_call_def new_qreg_call_def new_creg_call_def new_circuit_call_def
  qreg_getitem_call_def h_call_def cx_call_def measure_call_def circuit_drawer_call_def
  execute_call_def plot_histogram_call_def data_getitem_call_def data_column_call_def
  norm_call_def np_zeros_call_def w_setitem_call_def w_getitem_call_def
  get_max_cut_qubitops_call_def qaoa_run_call_def sampler_sample_call_def

text \<open>A notebook run is the run of its cells laid end to end.\<close>

lemma run_all_concat: "run_all lib cells tr = run_cell lib (concat cells) tr"
proof (induction cells arbitrary: tr)
  case Nil
  then show ?case by simp
next
  case (Cons cell cells)
  have app: "\<And>ys tr. run_cell lib (cell @ ys) tr =
      (case run_cell lib cell tr of (Some e, tr') \<Rightarrow> (Some e, tr') | (None, tr') \<Rightarrow> run_cell lib ys tr')"
  proof (induction cell)
    case Nil
    then show ?case by simp
  next
    case (Cons c cell)
    then show ?case by (simp split: option.splits)
  qed
  show ?case using Cons.IH by (simp add: app split: prod.splits option.splits)
qed

lemma run_cell_shape:
  "run_cell lib cs tr0 = (out, tr) \<Longrightarrow>
     \<exists>evs. tr = tr0 @ evs \<and> length evs \<le> length cs \<and> map fst evs = take (length evs) cs \<and>
       (\<forall>k. Suc k < length evs \<longrightarrow> snd (evs ! k) = None) \<and>
       (case out of
          None \<Rightarrow> length evs = length cs \<and> (\<forall>k < length evs. snd (evs ! k) = None)
        | Some e \<Rightarrow> evs \<noteq> [] \<and> snd (last evs) = Some e)"
proof (induction cs arbitrary: tr0)
  case Nil
  then show ?case by auto
next
  case (Cons c cs)
  show ?case
  proof (cases "lib tr0 c")
    case (Some e)
    then have "out = Some e" "tr = tr0 @ [(c, Some e)]" using Cons.prems by auto
    then show ?thesis by simp
  next
    case None
    then have "run_cell lib cs (tr0 @ [(c, None)]) = (out, tr)" using Cons.prems by simp
    from Cons.IH [OF this] obtain evs where evs: "tr = (tr0 @ [(c, None)]) @ evs"
      "length evs \<le> length cs" "map fst evs = take (length evs) cs"
      "\<forall>k. Suc k < length evs \<longrightarrow> snd (evs ! k) = None"
      "(case out of
          None \<Rightarrow> length evs = length cs \<and> (\<forall>k < length evs. snd (evs ! k) = None)
        | Some e \<Rightarrow> evs \<noteq> [] \<and> snd (last evs) = Some e)"
      by blast
    let ?evs = "(c, None) # evs"
    have "tr = tr0 @ ?evs" using evs(1) by simp
    moreover have "length ?evs \<le> length (c # cs)" using evs(2) by simp
    moreover have "map fst ?evs = take (length ?evs) (c # cs)" using evs(3) by simp
    moreover have "\<forall>k. Suc k < length ?evs \<longrightarrow> snd (?evs ! k) = None"
      using evs(4) by (auto simp: nth_Cons split: nat.splits)
    moreover have "(case out of
          None \<Rightarrow> length ?evs = length (c # cs) \<and> (\<forall>k < length ?evs. snd (?evs ! k) = None)
        | Some e \<Rightarrow> ?evs \<noteq> [] \<and> snd (last ?evs) = Some e)"
      using evs(5) by (auto simp: nth_Cons split: option.splits nat.splits)
    ultimately show ?thesis by blast
  qed
qed


lemma run_cell_nothing_raises:
  "run_cell nothing_raises cs tr = (None, tr @ map (\<lambda>c. (c, None)) cs)"
  by (induction cs arbitrary: tr) (simp_all add: nothing_raises_def)

lemma run_cell_calls:
  assumes "run_cell lib cs [] = (out, tr)" "k < length tr"
  shows "k < length cs \<and> fst (tr ! k) = cs ! k \<and> (\<forall>j<k. tr ! j = (cs ! j, None))"
proof -
  from run_cell_shape [OF assms(1)]
  have len: "length tr \<le> length cs" and calls: "map fst tr = take (length tr) cs"
    and ok: "\<forall>j. Suc j < length tr \<longrightarrow> snd (tr ! j) = None"
    by auto
  have nth: "fst (tr ! j) = cs ! j" if "j < length tr" for j
  proof -
    have "fst (tr ! j) = map fst tr ! j" using that by simp
    also have "\<dots> = cs ! j" using that calls by simp
    finally show ?thesis .
  qed
  have "tr ! j = (cs ! j, None)" if "j < k" for j
  proof -
    have "j < length tr" "Suc j < length tr" using that assms(2) by simp_all
    then have "fst (tr ! j) = cs ! j" "snd (tr ! j) = None" using nth ok by simp_all
    then show ?thesis by (simp add: prod_eq_iff)
  qed
  then show ?thesis using len assms(2) nth by auto
qed

lemma returned_before_split:
  assumes "run_cell lib (pre @ x # post) [] = (out, tr)" "x \<notin> set pre"
    and "invoked_at tr x k" "c \<in> set pre"
  shows "returned_before tr c k"
proof -
  have k: "k < length tr" "fst (tr ! k) = x" using assms(3) by (simp_all add: invoked_at_def)
  from run_cell_calls [OF assms(1) k(1)]
  have at: "fst (tr ! k) = (pre @ x # post) ! k"
    and before: "\<forall>j<k. tr ! j = ((pre @ x # post) ! j, None)"
    by simp_all
  have "\<not> k < length pre"
  proof
    assume "k < length pre"
    then have "(pre @ x # post) ! k \<in> set pre" by (simp add: nth_append)
    then show False using at k(2) assms(2) by simp
  qed
  then have le: "length pre \<le> k" by simp
  obtain j where j: "j < length pre" "pre ! j = c"
    using assms(4) by (auto simp: in_set_conv_nth)
  have "j < k" using j(1) le by simp
  then have "tr ! j = (c, None)" using before j by (simp add: nth_append)
  then have "take k tr ! j = (c, None)" using \<open>j < k\<close> by simp
  moreover have "j < length (take k tr)" using \<open>j < k\<close> k(1) by simp
  ultimately show ?thesis unfolding returned_before_def by (metis nth_mem)
qed


lemma calls_of_trace:
  assumes "ev \<in> set (snd (run_all lib cells []))"
  shows "fst ev \<in> set (concat cells)"
proof -
  obtain out tr where r: "run_cell lib (concat cells) [] = (out, tr)"
    by (cases "run_cell lib (concat cells) []")
  then have ev: "ev \<in> set tr" using assms by (simp add: run_all_concat)
  from run_cell_shape [OF r] have "map fst tr = take (length tr) (concat cells)" by auto
  then have "set (map fst tr) \<subseteq> set (concat cells)" by (metis set_take_subset)
  then show ?thesis using ev by auto
qed

lemma gate_model_packages:
  "c \<in> set (concat gate_model_notebook) \<Longrightarrow> package c \<in> {''qiskit'', ''builtins''}"
  by (auto simp: gate_model_notebook_def cell_define_circuit_def cell_measure_def
      cell_execute_def cell_assemble_def call_defs)

lemma clustering_packages:
  "c \<in> set (concat (clustering_notebook n m)) \<Longrightarrow> package c \<in> set used_packages"
  by (auto simp: clustering_notebook_def cell_data_def cell_distances_def
      cell_print_product_def cell_import_aqua_def cell_qaoa_init_def cell_qaoa_run_def
      cell_annealing_def w_calls_def J_calls_def call_defs used_packages_def)

text \<open>Where a call first occurs in a notebook: everything listed before it has returned
  by the time it is invoked.\<close>

lemma run_all_trace:
  "run_cell lib (concat cells) [] = (fst (run_all lib cells []), snd (run_all lib cells []))"
  by (simp add: run_all_concat)

lemma gate_model_split:
  "\<exists>pre post. concat gate_model_notebook = pre @ execute_call # post \<and>
     execute_call \<notin> set pre \<and> set circuit_construction \<subseteq> set pre"
proof -
  let ?pre = "cell_define_circuit @ cell_measure @ [Call ''qiskit'' ''BasicAer.get_backend'' []]"
  let ?post = "[Call ''qiskit'' ''Job.result'' [], Call ''qiskit'' ''Result.get_counts'' [],
      plot_histogram_call] @ cell_assemble"
  have "concat gate_model_notebook = ?pre @ execute_call # ?post"
    by (simp add: gate_model_notebook_def cell_execute_def)
  moreover have "execute_call \<notin> set ?pre"
    by (simp add: cell_define_circuit_def cell_measure_def call_defs)
  moreover have "set circuit_construction \<subseteq> set ?pre"
    by (simp add: circuit_construction_def cell_define_circuit_def cell_measure_def)
  ultimately show ?thesis by blast
qed

lemma w_setitem_in_cell:
  assumes "i < n" "j < n"
  shows "w_setitem_call i j \<in> set (cell_distances n)"
proof -
  have "(i, j) \<in> set (itertools_product n)" using assms by (simp add: itertools_product_def)
  moreover have "w_setitem_call i j \<in> set (w_calls (i, j))" by (simp add: w_calls_def)
  ultimately show ?thesis unfolding cell_distances_def by auto
qed

lemma get_max_cut_not_earlier:
  "get_max_cut_qubitops_call \<notin>
     set (cell_data n @ cell_distances n @ cell_print_product n @ cell_import_aqua)"
  by (auto simp: cell_data_def cell_distances_def cell_print_product_def cell_import_aqua_def
      w_calls_def call_defs)

lemma clustering_split_conversion:
  "\<exists>pre post. concat (clustering_notebook n m) = pre @ get_max_cut_qubitops_call # post \<and>
     get_max_cut_qubitops_call \<notin> set pre \<and> set (cell_data n) \<union> set (cell_distances n) \<subseteq> set pre"
proof -
  let ?pre = "cell_data n @ cell_distances n @ cell_print_product n @ cell_import_aqua"
  let ?post = "tl cell_qaoa_init @ cell_qaoa_run @ cell_annealing n m"
  have "concat (clustering_notebook n m) = ?pre @ get_max_cut_qubitops_call # ?post"
    by (simp add: clustering_notebook_def cell_qaoa_init_def)
  moreover have "get_max_cut_qubitops_call \<notin> set ?pre" by (rule get_max_cut_not_earlier)
  moreover have "set (cell_data n) \<union> set (cell_distances n) \<subseteq> set ?pre" by auto
  ultimately show ?thesis by blast
qed

lemma clustering_split_qaoa:
  "\<exists>pre post. concat (clustering_notebook n m) = pre @ qaoa_run_call # post \<and>
     qaoa_run_call \<notin> set pre \<and> get_max_cut_qubitops_call \<in> set pre"
proof -
  let ?pre = "cell_data n @ cell_distances n @ cell_print_product n @ cell_import_aqua
      @ cell_qaoa_init @ take 2 cell_qaoa_run"
  let ?post = "drop 3 cell_qaoa_run @ cell_annealing n m"
  have "concat (clustering_notebook n m) = ?pre @ qaoa_run_call # ?post"
    by (simp add: clustering_notebook_def cell_qaoa_run_def)
  moreover have "qaoa_run_call \<notin> set ?pre"
    by (auto simp: cell_data_def cell_distances_def cell_print_product_def cell_import_aqua_def
        cell_qaoa_init_def cell_qaoa_run_def w_calls_def call_defs)
  moreover have "get_max_cut_qubitops_call \<in> set ?pre"
    by (simp add: cell_qaoa_init_def)
  ultimately show ?thesis by blast
qed

lemma clustering_split_sampler:
  "\<exists>pre post. concat (clustering_notebook n m) = pre @ sampler_sample_call # post \<and>
     sampler_sample_call \<notin> set pre \<and> get_max_cut_qubitops_call \<in> set pre"
proof -
  let ?anneal = "[import_from ''dimod'' ''dimod'', range_call 0 n]
     @ concat (map (J_calls n) [0..<n])
     @ [Call ''dimod'' ''BinaryQuadraticModel'' [], Call ''dimod'' ''SimulatedAnnealingSampler'' []]"
  let ?pre = "cell_data n @ cell_distances n @ cell_print_product n @ cell_import_aqua
      @ cell_qaoa_init @ cell_qaoa_run @ ?anneal"
  let ?post = "[print_call, Call ''dimod'' ''SampleSet.data'' []] @ replicate m print_call"
  have "concat (clustering_notebook n m) = ?pre @ sampler_sample_call # ?post"
    by (simp add: clustering_notebook_def cell_annealing_def)
  moreover have "sampler_sample_call \<notin> set ?pre"
    by (auto simp: cell_data_def cell_distances_def cell_print_product_def cell_import_aqua_def
        cell_qaoa_init_def cell_qaoa_run_def w_calls_def J_calls_def call_defs)
  moreover have "get_max_cut_qubitops_call \<in> set ?pre"
    by (simp add: cell_qaoa_init_def)
  ultimately show ?thesis by blast
qed

lemma returned_before_in_run:
  assumes "concat cells = pre @ x # post" "x \<notin> set pre"
    and "invoked_at (snd (run_all lib cells [])) x k" "c \<in> set pre"
  shows "returned_before (snd (run_all lib cells [])) c k"
proof -
  have "run_cell lib (pre @ x # post) [] = (fst (run_all lib cells []), snd (run_all lib cells []))"
    using run_all_trace [of lib cells] assms(1) by simp
  from returned_before_split [OF this assms(2,3,4)] show ?thesis .
qed

section \<open>Evaluation of concrete runs\<close>



lemma execute_invoked: "invoked_at (gate_model_trace (nothing_raises :: unit world)) execute_call 16"
  by code_simp

lemma conversion_invoked: "invoked_at (clustering_trace (nothing_raises :: unit world) 4 10) get_max_cut_qubitops_call 109"
  by code_simp

lemma qaoa_invoked: "invoked_at (clustering_trace (nothing_raises :: unit world) 4 10) qaoa_run_call 114"
  by code_simp

lemma sampler_invoked: "invoked_at (clustering_trace (nothing_raises :: unit world) 4 10) sampler_sample_call 141"
  by code_simp

section \<open>The claims about the distance matrix and the Ising model\<close>



text \<open>
  C1. For a dataset of \<open>n\<close> points the matrix built by the loop is symmetric,
  \<open>w[i, j] = w[j, i]\<close> for all \<open>i, j\<close> in \<open>[0, n)\<close>, and its diagonal is zero.
\<close>

theorem distance_matrix_symmetric_zero_diagonal:
  assumes "length data = n"
  shows "\<exists>w. distance_matrix n data = Inr w \<and>
           (\<forall>i<n. \<forall>j<n. w ! i ! j = w ! j ! i) \<and> (\<forall>i<n. w ! i ! i = 0)"
proof -
  have "n \<le> length data" using assms by simp
  from distance_matrix_entries [OF this]
  obtain w where w: "distance_matrix n data = Inr w"
    and e: "\<forall>i j. i < n \<longrightarrow> j < n \<longrightarrow> w ! i ! j = linalg_norm (vsub (data ! i) (data ! j))"
    by blast
  have "\<forall>i<n. \<forall>j<n. w ! i ! j = w ! j ! i"
    using e vsub_commute by simp
  moreover have "\<forall>i<n. w ! i ! i = 0"
    using e vsub_self by simp
  ultimately show ?thesis using w by blast
qed

theorem distance_matrix_symmetric_zero_diagonal_witness:
  "length [[0, 0, 0], [3, 4, 0 :: real]] = 2 \<and>
   (\<exists>w. distance_matrix 2 [[0, 0, 0], [3, 4, 0]] = Inr w \<and>
      w ! 0 ! 1 = w ! 1 ! 0 \<and> w ! 0 ! 0 = 0 \<and> w ! 1 ! 1 = 0)"
proof -
  have len: "length [[0, 0, 0], [3, 4, 0 :: real]] = 2" by simp
  from distance_matrix_symmetric_zero_diagonal [OF len]
  obtain w where w: "distance_matrix 2 [[0, 0, 0], [3, 4, 0]] = Inr w"
    and s: "\<forall>i<2. \<forall>j<2. w ! i ! j = w ! j ! i" and d: "\<forall>i<2. w ! i ! i = 0"
    by blast
  have "w ! 0 ! 1 = w ! 1 ! 0" using s by simp
  moreover have "w ! 0 ! 0 = 0" "w ! 1 ! 1 = 0" using d by simp_all
  ultimately show ?thesis using w by simp
qed

text \<open>
  C8. For a matrix \<open>w\<close> of shape \<open>(n, n)\<close> the construction loop completes; afterwards
  \<open>h[i] = 0\<close> for every \<open>i\<close> in \<open>[0, n)\<close> (and \<open>h\<close> has no other key), the keys of \<open>J\<close> are
  exactly the pairs \<open>(i, j)\<close> with \<open>i < j < n\<close>, so no key has \<open>i \<ge> j\<close>, and
  \<open>J[(i, j)] = w[i, j]\<close> for each of them.
\<close>

theorem ising_model_fields_and_couplings:
  assumes "square n w"
  shows "\<exists>J h. ising_model n w = Inr (J, h) \<and>
           (\<forall>i<n. h i = Some 0) \<and> dom h = {i. i < n} \<and>
           dom J = {(i, j). i < j \<and> j < n} \<and>
           (\<forall>i j. i < j \<longrightarrow> j < n \<longrightarrow> J (i, j) = Some (w ! i ! j))"
proof -
  from ising_model_entries [OF assms]
  obtain J h where r: "ising_model n w = Inr (J, h)"
    and e: "\<forall>a b. J (a, b) = (if a < b \<and> b < n then Some (w ! a ! b) else None)"
    and f: "\<forall>a. h a = (if a < n then Some 0 else None)"
    by blast
  have "\<forall>i<n. h i = Some 0" using f by simp
  moreover have "dom h = {i. i < n}" using f by (auto simp: dom_def)
  moreover have "dom J = {(i, j). i < j \<and> j < n}"
  proof (rule set_eqI)
    fix k :: "nat \<times> nat"
    obtain a b where k: "k = (a, b)" by (cases k)
    have "J (a, b) = (if a < b \<and> b < n then Some (w ! a ! b) else None)" using e by blast
    then show "k \<in> dom J \<longleftrightarrow> k \<in> {(i, j). i < j \<and> j < n}"
      using k by (simp add: dom_def)
  qed
  moreover have "\<forall>i j. i < j \<longrightarrow> j < n \<longrightarrow> J (i, j) = Some (w ! i ! j)" using e by simp
  ultimately show ?thesis using r by blast
qed

theorem ising_model_fields_and_couplings_witness:
  "square 2 [[0, 5], [5, 0]] \<and>
   (\<exists>J h. ising_model 2 [[0, 5], [5, 0]] = Inr (J, h) \<and>
      h 0 = Some 0 \<and> h 1 = Some 0 \<and> J (0, 1) = Some 5 \<and> J (1, 0) = None \<and> J (0, 0) = None)"
proof -
  have sq: "square 2 [[0, 5], [5, 0]]" by (simp add: square_def)
  from ising_model_fields_and_couplings [OF sq]
  obtain J h where r: "ising_model 2 [[0, 5], [5, 0]] = Inr (J, h)"
    and f: "\<forall>i<2. h i = Some 0"
    and d: "dom J = {(i, j). i < j \<and> j < 2}"
    and e: "\<forall>i j. i < j \<longrightarrow> j < 2 \<longrightarrow> J (i, j) = Some ([[0, 5], [5, 0]] ! i ! j)"
    by (elim exE conjE)
  have "h 0 = Some 0" "h 1 = Some 0" using f by simp_all
  moreover have "J (0, 1) = Some 5" using e by simp
  moreover have "(1, 0) \<notin> dom J" "(0, 0) \<notin> dom J" using d by simp_all
  then have "J (1, 0) = None" "J (0, 0) = None" by (simp_all add: dom_def)
  ultimately show ?thesis using r sq by simp
qed

text \<open>
  C9. For a dataset of \<open>n\<close> points every entry \<open>w[i, j]\<close> with \<open>i, j\<close> in \<open>[0, n)\<close> is
  nonnegative, and so is every coupling of the Ising model built from \<open>w\<close>.
\<close>

theorem weights_and_couplings_nonnegative:
  assumes "length data = n"
  shows "\<exists>w J h. distance_matrix n data = Inr w \<and> ising_model n w = Inr (J, h) \<and>
           (\<forall>i<n. \<forall>j<n. 0 \<le> w ! i ! j) \<and> (\<forall>k v. J k = Some v \<longrightarrow> 0 \<le> v)"
proof -
  have "n \<le> length data" using assms by simp
  from distance_matrix_entries [OF this]
  obtain w where w: "distance_matrix n data = Inr w" and sq: "square n w"
    and e: "\<forall>i j. i < n \<longrightarrow> j < n \<longrightarrow> w ! i ! j = linalg_norm (vsub (data ! i) (data ! j))"
    by blast
  have pos: "\<forall>i<n. \<forall>j<n. 0 \<le> w ! i ! j"
    using e linalg_norm_nonneg by simp
  from ising_model_entries [OF sq]
  obtain J h where r: "ising_model n w = Inr (J, h)"
    and c: "\<forall>a b. J (a, b) = (if a < b \<and> b < n then Some (w ! a ! b) else None)"
    by blast
  have "\<forall>k v. J k = Some v \<longrightarrow> 0 \<le> v"
  proof (intro allI impI)
    fix k v
    assume kv: "J k = Some v"
    obtain a b where k: "k = (a, b)" by (cases k)
    have ab: "a < b \<and> b < n" and v: "v = w ! a ! b"
      using kv c k by (auto split: if_splits)
    then show "0 \<le> v" using pos by simp
  qed
  then show ?thesis using w r pos by blast
qed

theorem weights_and_couplings_nonnegative_witness:
  "length [[0, 0, 0], [3, 4, 0 :: real]] = 2 \<and>
   (\<exists>w J h. distance_matrix 2 [[0, 0, 0], [3, 4, 0]] = Inr w \<and>
      ising_model 2 w = Inr (J, h) \<and> 0 \<le> w ! 0 ! 1 \<and> (\<forall>v. J (0, 1) = Some v \<longrightarrow> 0 \<le> v))"
proof -
  have len: "length [[0, 0, 0], [3, 4, 0 :: real]] = 2" by simp
  from weights_and_couplings_nonnegative [OF len]
  obtain w J h where w: "distance_matrix 2 [[0, 0, 0], [3, 4, 0]] = Inr w"
    and r: "ising_model 2 w = Inr (J, h)"
    and p: "\<forall>i<2. \<forall>j<2. 0 \<le> w ! i ! j" and q: "\<forall>k v. J k = Some v \<longrightarrow> 0 \<le> v"
    by blast
  have "0 \<le> w ! 0 ! 1" using p by simp
  moreover have "\<forall>v. J (0, 1) = Some v \<longrightarrow> 0 \<le> v" using q by blast
  ultimately show ?thesis using w r by auto
qed

section \<open>The claim about the circuit\<close>

text \<open>
  C10. After the measurement cell the circuit is built over exactly one quantum register
  of two qubits and one classical register of two bits, and holds exactly four
  instructions in this order: Hadamard on qubit 0, CNOT with control qubit 0 and target
  qubit 1, measurement of qubit 0 into classical bit 0, measurement of qubit 1 into
  classical bit 1.
\<close>

theorem measured_circuit_instructions:
  "measured_circuit = Inr
     \<lparr>qregs = [QuantumRegister 2], cregs = [ClassicalRegister 2],
      instructions =
        [H (Qubit (QuantumRegister 2) 0),
         CX (Qubit (QuantumRegister 2) 0) (Qubit (QuantumRegister 2) 1),
         Measure (Qubit (QuantumRegister 2) 0) (Clbit (ClassicalRegister 2) 0),
         Measure (Qubit (QuantumRegister 2) 1) (Clbit (ClassicalRegister 2) 1)]\<rparr>"
  by (simp add: measured_circuit_def define_circuit_def add_measurement_def then_do_def
      Let_def new_circuit_def qreg_getitem_def circuit_h_def circuit_cx_def
      circuit_measure_def append_instruction_def numeral_2_eq_2)

section \<open>The claims about the runs of the notebooks\<close>



text \<open>
  C5. In a run of the gate-model notebook, whenever \<open>execute\<close> is invoked, the calls
  creating the registers and the circuit, appending the two gates and adding the
  measurement have all returned. In a run of the clustering notebook, whenever
  \<open>get_max_cut_qubitops\<close> is invoked, every call of the data cell and of the distance
  cell has returned, among them the assignment to \<open>w[i, j]\<close> for all \<open>i, j\<close> in
  \<open>[0, n)\<close>; and whenever \<open>qaoa.run\<close> or \<open>sampler.sample\<close> is invoked,
  \<open>get_max_cut_qubitops\<close> has returned. This holds in every world.
\<close>

theorem pipeline_order:
  "(\<forall>k. invoked_at (gate_model_trace lib) execute_call k \<longrightarrow>
        (\<forall>c \<in> set circuit_construction. returned_before (gate_model_trace lib) c k)) \<and>
   (\<forall>k. invoked_at (clustering_trace lib' n m) get_max_cut_qubitops_call k \<longrightarrow>
        (\<forall>c \<in> set (cell_data n) \<union> set (cell_distances n).
           returned_before (clustering_trace lib' n m) c k) \<and>
        (\<forall>i<n. \<forall>j<n. returned_before (clustering_trace lib' n m) (w_setitem_call i j) k)) \<and>
   (\<forall>k. invoked_at (clustering_trace lib' n m) qaoa_run_call k \<or>
        invoked_at (clustering_trace lib' n m) sampler_sample_call k \<longrightarrow>
        returned_before (clustering_trace lib' n m) get_max_cut_qubitops_call k)"
proof (intro conjI allI impI ballI)
  fix k c
  assume inv: "invoked_at (gate_model_trace lib) execute_call k"
    and c: "c \<in> set circuit_construction"
  obtain pre post where s: "concat gate_model_notebook = pre @ execute_call # post"
    "execute_call \<notin> set pre" "set circuit_construction \<subseteq> set pre"
    using gate_model_split by blast
  have "c \<in> set pre" using c s(3) by blast
  from returned_before_in_run [OF s(1,2) inv [unfolded gate_model_trace_def] this]
  show "returned_before (gate_model_trace lib) c k" by (simp add: gate_model_trace_def)
next
  fix k c
  assume inv: "invoked_at (clustering_trace lib' n m) get_max_cut_qubitops_call k"
    and c: "c \<in> set (cell_data n) \<union> set (cell_distances n)"
  obtain pre post where s: "concat (clustering_notebook n m) = pre @ get_max_cut_qubitops_call # post"
    "get_max_cut_qubitops_call \<notin> set pre" "set (cell_data n) \<union> set (cell_distances n) \<subseteq> set pre"
    using clustering_split_conversion by blast
  have "c \<in> set pre" using c s(3) by blast
  from returned_before_in_run [OF s(1,2) inv [unfolded clustering_trace_def] this]
  show "returned_before (clustering_trace lib' n m) c k" by (simp add: clustering_trace_def)
next
  fix k i j
  assume inv: "invoked_at (clustering_trace lib' n m) get_max_cut_qubitops_call k"
    and ij: "i < n" "j < n"
  obtain pre post where s: "concat (clustering_notebook n m) = pre @ get_max_cut_qubitops_call # post"
    "get_max_cut_qubitops_call \<notin> set pre" "set (cell_data n) \<union> set (cell_distances n) \<subseteq> set pre"
    using clustering_split_conversion by blast
  have "w_setitem_call i j \<in> set pre" using w_setitem_in_cell [OF ij] s(3) by blast
  from returned_before_in_run [OF s(1,2) inv [unfolded clustering_trace_def] this]
  show "returned_before (clustering_trace lib' n m) (w_setitem_call i j) k"
    by (simp add: clustering_trace_def)
next
  fix k
  assume "invoked_at (clustering_trace lib' n m) qaoa_run_call k \<or>
        invoked_at (clustering_trace lib' n m) sampler_sample_call k"
  then show "returned_before (clustering_trace lib' n m) get_max_cut_qubitops_call k"
  proof
    assume inv: "invoked_at (clustering_trace lib' n m) qaoa_run_call k"
    obtain pre post where s: "concat (clustering_notebook n m) = pre @ qaoa_run_call # post"
      "qaoa_run_call \<notin> set pre" "get_max_cut_qubitops_call \<in> set pre"
      using clustering_split_qaoa by blast
    from returned_before_in_run [OF s(1,2) inv [unfolded clustering_trace_def] s(3)]
    show ?thesis by (simp add: clustering_trace_def)
  next
    assume inv: "invoked_at (clustering_trace lib' n m) sampler_sample_call k"
    obtain pre post where s: "concat (clustering_notebook n m) = pre @ sampler_sample_call # post"
      "sampler_sample_call \<notin> set pre" "get_max_cut_qubitops_call \<in> set pre"
      using clustering_split_sampler by blast
    from returned_before_in_run [OF s(1,2) inv [unfolded clustering_trace_def] s(3)]
    show ?thesis by (simp add: clustering_trace_def)
  qed
qed

theorem pipeline_order_witness:
  "invoked_at (gate_model_trace (nothing_raises :: unit world)) execute_call 16 \<and>
   returned_before (gate_model_trace (nothing_raises :: unit world)) measure_call 16 \<and>
   invoked_at (clustering_trace (nothing_raises :: unit world) 4 10) get_max_cut_qubitops_call 109 \<and>
   returned_before (clustering_trace (nothing_raises :: unit world) 4 10) (w_setitem_call 3 3) 109 \<and>
   invoked_at (clustering_trace (nothing_raises :: unit world) 4 10) qaoa_run_call 114 \<and>
   returned_before (clustering_trace (nothing_raises :: unit world) 4 10) get_max_cut_qubitops_call 114 \<and>
   invoked_at (clustering_trace (nothing_raises :: unit world) 4 10) sampler_sample_call 141 \<and>
   returned_before (clustering_trace (nothing_raises :: unit world) 4 10) get_max_cut_qubitops_call 141"
proof -
  note po = pipeline_order [of "nothing_raises :: unit world" "nothing_raises :: unit world" 4 10]
  have m: "measure_call \<in> set circuit_construction" by (simp add: circuit_construction_def)
  have "returned_before (gate_model_trace (nothing_raises :: unit world)) measure_call 16"
    using po execute_invoked m by blast
  moreover have "returned_before (clustering_trace (nothing_raises :: unit world) 4 10) (w_setitem_call 3 3) 109"
    using po conversion_invoked by simp
  moreover have "returned_before (clustering_trace (nothing_raises :: unit world) 4 10) get_max_cut_qubitops_call 114"
    using po qaoa_invoked by blast
  moreover have "returned_before (clustering_trace (nothing_raises :: unit world) 4 10) get_max_cut_qubitops_call 141"
    using po sampler_invoked by blast
  ultimately show ?thesis using execute_invoked conversion_invoked qaoa_invoked sampler_invoked by simp
qed

text \<open>
  C6, as it stands: the circuit library and the annealing library are the only
  libraries called. It fails: a run of the clustering notebook calls \<open>np.linalg.norm\<close>,
  which belongs to neither.
\<close>

theorem only_two_libraries_counterexample:
  "(norm_call, None) \<in> set (snd (run_all (nothing_raises :: unit world) (clustering_notebook 4 10) [])) \<and>
   package norm_call \<notin> {''qiskit'', ''dimod''}"
proof -
  have "norm_call \<in> set (w_calls (0, 0))" by (simp add: w_calls_def)
  moreover have "(0, 0) \<in> set (itertools_product 4)" by (simp add: itertools_product_def)
  ultimately have "norm_call \<in> set (cell_distances 4)"
    unfolding cell_distances_def by auto
  then have "norm_call \<in> set (concat (clustering_notebook 4 10))"
    by (simp add: clustering_notebook_def)
  then have "(norm_call, None) \<in> set (snd (run_all (nothing_raises :: unit world) (clustering_notebook 4 10) []))"
    by (simp add: run_all_concat run_cell_nothing_raises del: set_concat)
  then show ?thesis by (simp add: norm_call_def)
qed

text \<open>
  C6, amended: every call made in a run of either notebook goes to the circuit library
  (\<open>qiskit\<close>, with its \<open>aqua\<close> part), to the annealing library (\<open>dimod\<close>), to \<open>numpy\<close>, to
  the plotting library (\<open>matplotlib\<close>, \<open>mpl_toolkits\<close>, the \<open>%matplotlib\<close> magic), or to
  Python's own \<open>itertools\<close> and built-ins; no other package is called.
\<close>

theorem calls_stay_within_used_packages:
  assumes "ev \<in> set (snd (run_all lib gate_model_notebook [])) \<or>
           ev \<in> set (snd (run_all lib (clustering_notebook n m) []))"
  shows "package (fst ev) \<in> set used_packages"
proof -
  from assms have "fst ev \<in> set (concat gate_model_notebook) \<or>
      fst ev \<in> set (concat (clustering_notebook n m))"
    using calls_of_trace by blast
  then show ?thesis
  proof
    assume "fst ev \<in> set (concat gate_model_notebook)"
    then have "package (fst ev) \<in> {''qiskit'', ''builtins''}" by (rule gate_model_packages)
    then show ?thesis by (auto simp: used_packages_def)
  next
    assume "fst ev \<in> set (concat (clustering_notebook n m))"
    then show ?thesis by (rule clustering_packages)
  qed
qed

theorem calls_stay_within_used_packages_witness:
  "(sampler_sample_call, None) \<in> set (snd (run_all (nothing_raises :: unit world) (clustering_notebook 4 10) [])) \<and>
   package (fst (sampler_sample_call, None :: unit option)) \<in> set used_packages"
proof -
  have "sampler_sample_call \<in> set (cell_annealing 4 10)"
    by (simp add: cell_annealing_def)
  then have "sampler_sample_call \<in> set (concat (clustering_notebook 4 10))"
    by (simp add: clustering_notebook_def)
  then have mem: "(sampler_sample_call, None) \<in> set (snd (run_all (nothing_raises :: unit world) (clustering_notebook 4 10) []))"
    by (simp add: run_all_concat run_cell_nothing_raises del: set_concat)
  then have "package (fst (sampler_sample_call, None :: unit option)) \<in> set used_packages"
    using calls_stay_within_used_packages [of "(sampler_sample_call, None)" nothing_raises 4 10]
    by blast
  then show ?thesis using mem by simp
qed

end
